theory Spec2Isabelle
  imports Main "HOL-Library.Word"
begin

unbundle bit_operations_syntax

section \<open>Bytes, errors and keyword options\<close>

text \<open>
  A Python \<^verbatim>\<open>bytes\<close> object is a list of 8-bit words. Python integers are unbounded,
  so every integer field of a layer is an \<^typ>\<open>int\<close>.
\<close>

type_synonym byte = "8 word"
type_synonym bytes = "byte list"

text \<open>
  The exceptions the code can raise: \<^verbatim>\<open>OSError\<close> ("illegal IP address string passed to
  inet_aton") and \<^verbatim>\<open>ValueError\<close> ("embedded null character") from
  \<^verbatim>\<open>socket.inet_aton\<close>, \<^verbatim>\<open>struct.error\<close> from \<^verbatim>\<open>struct.pack\<close> when an integer does not
  fit its format, and \<^verbatim>\<open>UnboundLocalError\<close> for a read of the local \<^verbatim>\<open>curr_payload\<close>
  of \<^verbatim>\<open>serialize_layers\<close> before its first assignment.
\<close>

datatype error = OSError | ValueError | struct_error | UnboundLocalError

text \<open>\<^verbatim>\<open>**opts\<close> is a dictionary from keyword names to integers; \<^verbatim>\<open>opts.get(k, d)\<close>.\<close>

type_synonym opts = "string \<rightharpoonup> int"

definition opts_get :: "opts \<Rightarrow> string \<Rightarrow> int \<Rightarrow> int" where
  "opts_get opts k d = (case opts k of None \<Rightarrow> d | Some v \<Rightarrow> v)"

definition bytes_of :: "string \<Rightarrow> bytes" where
  "bytes_of s = map of_char s"

section \<open>\<^verbatim>\<open>struct.pack\<close> in network byte order\<close>

text \<open>
  The two format strings of the code are \<^verbatim>\<open>"!BBHHHBBH4s4s"\<close> and \<^verbatim>\<open>"!HHHH"\<close>. A format
  character with its argument is a \<open>field\<close>: \<open>B\<close> an unsigned byte, \<open>H\<close> an unsigned
  16-bit integer written big-endian, \<open>S n\<close> a byte string cut or null-padded to \<open>n\<close>
  bytes. An integer outside the range of its format raises \<^verbatim>\<open>struct.error\<close>.
\<close>

datatype field = B int | H int | S nat bytes

fun pack_field :: "field \<Rightarrow> error + bytes" where
  "pack_field (B x) =
     (if 0 \<le> x \<and> x \<le> 255 then Inr [word_of_int x] else Inl struct_error)"
| "pack_field (H x) =
     (if 0 \<le> x \<and> x \<le> 65535
      then Inr [word_of_int (x div 256), word_of_int (x mod 256)]
      else Inl struct_error)"
| "pack_field (S n bs) = Inr (take n (bs @ replicate n 0))"

fun struct_pack :: "field list \<Rightarrow> error + bytes" where
  "struct_pack [] = Inr []"
| "struct_pack (f # fs) =
     (case pack_field f of
        Inl e \<Rightarrow> Inl e
      | Inr b \<Rightarrow> (case struct_pack fs of Inl e \<Rightarrow> Inl e | Inr bs \<Rightarrow> Inr (b @ bs)))"

section \<open>\<^verbatim>\<open>socket.inet_aton\<close>\<close>

text \<open>
  \<^verbatim>\<open>socket.inet_aton\<close> refuses a string with an embedded null character and hands any
  other string to the C library's \<^verbatim>\<open>inet_aton\<close>. The definitions follow the algorithm of
  the GNU C library: up to four numbers separated by dots, each read by
  \<^verbatim>\<open>strtoul(cp, &endp, 0)\<close> (decimal, octal after a leading \<^verbatim>\<open>0\<close>, hexadecimal after
  \<^verbatim>\<open>0x\<close>), the last number filling the bytes that remain, and nothing but white space
  right after the last number.
\<close>

definition isdigit :: "char \<Rightarrow> bool" where
  "isdigit c = (48 \<le> (of_char c :: nat) \<and> (of_char c :: nat) \<le> 57)"

definition isspace :: "char \<Rightarrow> bool" where
  "isspace c = ((of_char c :: nat) = 32 \<or> (9 \<le> (of_char c :: nat) \<and> (of_char c :: nat) \<le> 13))"

definition digit_value :: "char \<Rightarrow> nat option" where
  "digit_value c =
     (let n = (of_char c :: nat) in
      if 48 \<le> n \<and> n \<le> 57 then Some (n - 48)
      else if 97 \<le> n \<and> n \<le> 122 then Some (n - 87)
      else if 65 \<le> n \<and> n \<le> 90 then Some (n - 55)
      else None)"

fun strtoul_digits :: "nat \<Rightarrow> string \<Rightarrow> nat \<Rightarrow> nat \<times> string" where
  "strtoul_digits base [] acc = (acc, [])"
| "strtoul_digits base (c # cs) acc =
     (case digit_value c of
        None \<Rightarrow> (acc, c # cs)
      | Some d \<Rightarrow>
          if d < base then strtoul_digits base cs (acc * base + d) else (acc, c # cs))"

definition hex_prefix :: "string \<Rightarrow> bool" where
  "hex_prefix cp =
     (case cp of
        c0 # x # d # _ \<Rightarrow>
          c0 = CHR ''0'' \<and> (x = CHR ''x'' \<or> x = CHR ''X'') \<and>
          (case digit_value d of None \<Rightarrow> False | Some v \<Rightarrow> v < 16)
      | _ \<Rightarrow> False)"

text \<open>
  \<^verbatim>\<open>strtoul\<close> with base 0 on a string that starts with a digit: the value read and the
  rest of the string (\<^verbatim>\<open>endp\<close>). The value is not cut to the width of \<^verbatim>\<open>unsigned long\<close>:
  the caller refuses every value above \<^verbatim>\<open>0xffffffff\<close>, which covers the overflow.
\<close>

definition strtoul :: "string \<Rightarrow> nat \<times> string" where
  "strtoul cp =
     (if hex_prefix cp then strtoul_digits 16 (drop 2 cp) 0
      else if take 1 cp = ''0'' then strtoul_digits 8 cp 0
      else strtoul_digits 10 cp 0)"

definition inet_aton_end :: "nat \<Rightarrow> string \<Rightarrow> nat list \<Rightarrow> bytes option" where
  "inet_aton_end val endp pp =
     (if (case endp of [] \<Rightarrow> False | c # _ \<Rightarrow> \<not> isspace c) then None
      else if val > [0xffffffff, 0xffffff, 0xffff, 0xff] ! length pp then None
      else Some (map (\<lambda>(a, b). a OR b)
        (zip (map word_of_nat pp @ replicate (4 - length pp) 0)
             [word_of_nat (val div 2 ^ 24), word_of_nat (val div 2 ^ 16),
              word_of_nat (val div 2 ^ 8), word_of_nat val])))"

function inet_aton_loop :: "string \<Rightarrow> nat list \<Rightarrow> bytes option" where
  "inet_aton_loop [] pp = None"
| "inet_aton_loop (c # cs) pp =
     (if \<not> isdigit c then None
      else (case strtoul (c # cs) of
        (val, endp) \<Rightarrow>
          if val > 0xffffffff then None
          else (case endp of
            [] \<Rightarrow> inet_aton_end val endp pp
          | d # cp' \<Rightarrow>
              if d = CHR ''.''
              then (if length pp > 2 \<or> val > 0xff then None
                    else inet_aton_loop cp' (pp @ [val]))
              else inet_aton_end val endp pp)))"
  by pat_completeness auto
termination
  by (relation "measure (\<lambda>(cp, pp). 3 - length pp)") auto

definition inet_aton :: "string \<Rightarrow> error + bytes" where
  "inet_aton ip_string =
     (if CHR 0x00 \<in> set ip_string then Inl ValueError
      else (case inet_aton_loop ip_string [] of
        None \<Rightarrow> Inl OSError
      | Some packed \<Rightarrow> Inr packed))"

section \<open>The layers\<close>

definition IPV4_EVIL_BIT :: int where "IPV4_EVIL_BIT = push_bit 2 1"
definition IPV4_DONT_FRAGMENT :: int where "IPV4_DONT_FRAGMENT = push_bit 1 1"
definition IPV4_MORE_FRAGMENTS :: int where "IPV4_MORE_FRAGMENTS = push_bit 0 1"

text \<open>
  The attributes of the two header classes, under their names in the code; \<^verbatim>\<open>id\<close>,
  \<^verbatim>\<open>checksum\<close> and \<^verbatim>\<open>length\<close> carry the class as a suffix, since \<open>id\<close> and \<open>length\<close> are
  constants of HOL and both classes have a \<^verbatim>\<open>checksum\<close>.
\<close>

record IPv4Layer =
  verihl :: int
  dscp_ecn :: int
  total_length :: int
  id_ipv4 :: int
  flags :: int
  fragment_offset :: int
  flags_fragment_offset :: int
  ttl :: int
  protocol :: int
  checksum_ipv4 :: int
  src_ip :: bytes
  dst_ip :: bytes

record UDPLayer =
  src_port :: int
  dst_port :: int
  length_udp :: int
  checksum_udp :: int

text \<open>The three concrete classes of \<^verbatim>\<open>Layer\<close>; a \<^verbatim>\<open>Payload\<close> holds its bytes only.\<close>

datatype layer = IPv4 IPv4Layer | UDP UDPLayer | Payload bytes

text \<open>
  The constructors. \<^verbatim>\<open>IPv4Layer.__init__\<close> raises what \<^verbatim>\<open>inet_aton\<close> raises, the source
  address first; \<^verbatim>\<open>UDPLayer.__init__\<close> stores its arguments and raises nothing.
\<close>

definition IPv4Layer_init :: "int \<Rightarrow> string \<Rightarrow> string \<Rightarrow> opts \<Rightarrow> error + IPv4Layer" where
  "IPv4Layer_init proto src dst opts =
     (case inet_aton src of
        Inl e \<Rightarrow> Inl e
      | Inr src_packed \<Rightarrow>
          (case inet_aton dst of
             Inl e \<Rightarrow> Inl e
           | Inr dst_packed \<Rightarrow>
               Inr \<lparr> verihl = push_bit 4 4 + 5,
                     dscp_ecn = push_bit 6 0 + 0,
                     total_length = opts_get opts ''total_length'' 0,
                     id_ipv4 = opts_get opts ''id'' 0,
                     flags = opts_get opts ''flags'' 0,
                     fragment_offset = opts_get opts ''fragment_offset'' 0,
                     flags_fragment_offset =
                       push_bit 13 (opts_get opts ''flags'' 0) + opts_get opts ''fragment_offset'' 0,
                     ttl = opts_get opts ''ttl'' 64,
                     protocol = proto,
                     checksum_ipv4 = opts_get opts ''checksum'' 0,
                     src_ip = src_packed,
                     dst_ip = dst_packed \<rparr>))"

definition UDPLayer_init :: "int \<Rightarrow> int \<Rightarrow> opts \<Rightarrow> error + UDPLayer" where
  "UDPLayer_init sport dport opts =
     Inr \<lparr> src_port = sport,
           dst_port = dport,
           length_udp = opts_get opts ''length'' 0,
           checksum_udp = opts_get opts ''checksum'' 0 \<rparr>"

text \<open>The methods of \<^verbatim>\<open>Layer\<close>, dispatched on the class of the object.\<close>

fun set_length :: "layer \<Rightarrow> int \<Rightarrow> layer" where
  "set_length (IPv4 self) payload_length = IPv4 (self\<lparr>total_length := 20 + payload_length\<rparr>)"
| "set_length (UDP self) payload_length = UDP (self\<lparr>length_udp := 8 + payload_length\<rparr>)"
| "set_length (Payload payload) payload_length = Payload payload"

fun get_total_length :: "layer \<Rightarrow> int" where
  "get_total_length (IPv4 self) = total_length self"
| "get_total_length (UDP self) = length_udp self"
| "get_total_length (Payload payload) = int (length payload)"

fun get_payload_length :: "layer \<Rightarrow> int" where
  "get_payload_length (IPv4 self) = total_length self - 20"
| "get_payload_length (UDP self) = length_udp self - 8"
| "get_payload_length (Payload payload) = int (length payload)"

fun has_checksum :: "layer \<Rightarrow> bool" where
  "has_checksum (IPv4 self) = False"
| "has_checksum (UDP self) = True"
| "has_checksum (Payload payload) = False"

text \<open>
  \<^verbatim>\<open>serialize(self, buf)\<close>: the buffer is passed in and returned with the layer's bytes
  appended. \<^verbatim>\<open>struct.pack\<close> runs before \<^verbatim>\<open>buf.write\<close>, so a layer that raises has
  written nothing.
\<close>

definition IPv4Layer_serialize :: "IPv4Layer \<Rightarrow> bytes \<Rightarrow> error + bytes" where
  "IPv4Layer_serialize self buf =
     (case struct_pack
             [B (verihl self), B (dscp_ecn self), H (total_length self), H (id_ipv4 self),
              H (flags_fragment_offset self), B (ttl self), B (protocol self),
              H (checksum_ipv4 self), S 4 (src_ip self), S 4 (dst_ip self)] of
        Inl e \<Rightarrow> Inl e
      | Inr packed \<Rightarrow> Inr (buf @ packed))"

definition UDPLayer_serialize :: "UDPLayer \<Rightarrow> bytes \<Rightarrow> error + bytes" where
  "UDPLayer_serialize self buf =
     (case struct_pack
             [H (src_port self), H (dst_port self), H (length_udp self), H (checksum_udp self)] of
        Inl e \<Rightarrow> Inl e
      | Inr packed \<Rightarrow> Inr (buf @ packed))"

definition Payload_serialize :: "bytes \<Rightarrow> bytes \<Rightarrow> error + bytes" where
  "Payload_serialize payload buf = Inr (buf @ payload)"

fun serialize :: "layer \<Rightarrow> bytes \<Rightarrow> error + bytes" where
  "serialize (IPv4 self) buf = IPv4Layer_serialize self buf"
| "serialize (UDP self) buf = UDPLayer_serialize self buf"
| "serialize (Payload payload) buf = Payload_serialize payload buf"

section \<open>The composer\<close>

text \<open>
  Layers are objects: \<^verbatim>\<open>set_length\<close> mutates the object it is called on, and the same
  object may stand at several places of \<^verbatim>\<open>*layers\<close>. The store maps a reference to the
  object's current value; \<^verbatim>\<open>*layers\<close> is a list of references.
\<close>

type_synonym ref = nat
type_synonym heap = "ref \<Rightarrow> layer"

text \<open>
  The first loop, over \<^verbatim>\<open>reversed(layers)\<close>, with its locals \<^verbatim>\<open>first_time\<close> and
  \<^verbatim>\<open>curr_payload\<close> (unbound until assigned) and the store as they stand at the start of
  an iteration.
\<close>

fun backward_loop :: "ref list \<Rightarrow> bool \<Rightarrow> int option \<Rightarrow> heap \<Rightarrow> error option \<times> heap" where
  "backward_loop [] first_time curr_payload h = (None, h)"
| "backward_loop (layer # rest) first_time curr_payload h =
     (if first_time
      then backward_loop rest False (Some (get_total_length (h layer))) h
      else (case curr_payload of
        None \<Rightarrow> (Some UnboundLocalError, h)
      | Some n \<Rightarrow>
          (let h' = h(layer := set_length (h layer) n)
           in backward_loop rest False (Some (get_total_length (h' layer))) h')))"

text \<open>
  The second loop, over \<^verbatim>\<open>layers\<close>, writing into the one \<^verbatim>\<open>BytesIO\<close>: the buffer as it
  stands when the loop ends or an exception leaves it, and that exception.
\<close>

fun forward_loop :: "heap \<Rightarrow> ref list \<Rightarrow> bytes \<Rightarrow> bytes \<times> error option" where
  "forward_loop h [] buf = (buf, None)"
| "forward_loop h (layer # rest) buf =
     (case serialize (h layer) buf of
        Inl e \<Rightarrow> (buf, Some e)
      | Inr buf' \<Rightarrow> forward_loop h rest buf')"

text \<open>
  \<^verbatim>\<open>serialize_layers(*layers)\<close>: the store after the call, and the bytes returned or the
  exception raised.
\<close>

definition serialize_layers :: "heap \<Rightarrow> ref list \<Rightarrow> heap \<times> (error + bytes)" where
  "serialize_layers h layers =
     (case backward_loop (rev layers) True None h of
        (Some e, h') \<Rightarrow> (h', Inl e)
      | (None, h') \<Rightarrow>
          (case forward_loop h' layers [] of
             (buf, Some e) \<Rightarrow> (h', Inl e)
           | (res, None) \<Rightarrow> (h', Inr res)))"

section \<open>The entry point\<close>

text \<open>
  A call \<^verbatim>\<open>serialize_layers(a, b, c)\<close> on freshly built objects: the objects of the list
  are allocated at the references 0, 1, 2, ...
\<close>

definition heap_of :: "layer list \<Rightarrow> heap" where
  "heap_of ls = (\<lambda>r. if r < length ls then ls ! r else Payload [])"

definition IPPROTO_UDP :: int where "IPPROTO_UDP = 17"

text \<open>
  \<^verbatim>\<open>main.py\<close> builds an \<^verbatim>\<open>IPv4Layer\<close>, a \<^verbatim>\<open>UDPLayer\<close> and a \<^verbatim>\<open>Payload\<close> and composes
  them. \<open>build_packet\<close> is that sequence of calls with the literal arguments of
  \<^verbatim>\<open>main.py\<close> as parameters; \<open>main_pkt\<close> is the value \<^verbatim>\<open>pkt\<close> of \<^verbatim>\<open>main.py\<close>.
\<close>

definition build_packet ::
  "int \<Rightarrow> string \<Rightarrow> string \<Rightarrow> opts \<Rightarrow> int \<Rightarrow> int \<Rightarrow> opts \<Rightarrow> bytes \<Rightarrow> error + bytes" where
  "build_packet proto src dst ip_opts sport dport udp_opts payload =
     (case IPv4Layer_init proto src dst ip_opts of
        Inl e \<Rightarrow> Inl e
      | Inr ipv4 \<Rightarrow>
          (case UDPLayer_init sport dport udp_opts of
             Inl e \<Rightarrow> Inl e
           | Inr udp \<Rightarrow>
               snd (serialize_layers (heap_of [IPv4 ipv4, UDP udp, Payload payload]) [0, 1, 2])))"

definition main_pkt :: "error + bytes" where
  "main_pkt =
     build_packet IPPROTO_UDP ''192.168.0.55'' ''192.168.0.100''
       [''flags'' \<mapsto> IPV4_DONT_FRAGMENT] 5995 9559 Map.empty (bytes_of ''Hello World'')"

text \<open>The objects \<^verbatim>\<open>main.py\<close> builds, the store that holds them, and the packet it sends.\<close>

definition main_ipv4 :: IPv4Layer where
  "main_ipv4 =
     \<lparr> verihl = 69, dscp_ecn = 0, total_length = 0, id_ipv4 = 0, flags = 2,
       fragment_offset = 0, flags_fragment_offset = 16384, ttl = 64, protocol = 17,
       checksum_ipv4 = 0, src_ip = [192, 168, 0, 55], dst_ip = [192, 168, 0, 100] \<rparr>"

definition main_udp :: UDPLayer where
  "main_udp = \<lparr> src_port = 5995, dst_port = 9559, length_udp = 0, checksum_udp = 0 \<rparr>"

definition main_heap :: heap where
  "main_heap = heap_of [IPv4 main_ipv4, UDP main_udp, Payload (bytes_of ''Hello World'')]"

definition main_bytes :: bytes where
  "main_bytes =
     [69, 0, 0, 39, 0, 0, 64, 0, 64, 17, 0, 0, 192, 168, 0, 55, 192, 168, 0, 100,
      23, 107, 37, 87, 0, 19, 0, 0,
      72, 101, 108, 108, 111, 32, 87, 111, 114, 108, 100]"

text \<open>The layers of \<^verbatim>\<open>main.py\<close> over a payload of 65508 null bytes.\<close>

definition big_heap :: heap where
  "big_heap = heap_of [IPv4 main_ipv4, UDP main_udp, Payload (replicate 65508 0)]"

text \<open>
  A payload of two bytes placed before a \<^verbatim>\<open>UDPLayer\<close> built with \<^verbatim>\<open>length=70000\<close>:
  the objects of \<^verbatim>\<open>serialize_layers(Payload(b"ab"), UDPLayer(1, 2, length=70000))\<close>.
\<close>

definition overflow_heap :: heap where
  "overflow_heap =
     heap_of [Payload (bytes_of ''ab''),
              UDP \<lparr> src_port = 1, dst_port = 2, length_udp = 70000, checksum_udp = 0 \<rparr>]"

section \<open>Notions of the specification\<close>

text \<open>
  Reading a buffer at a field offset of the wire format: one byte, a big-endian 16-bit
  integer, and the bytes from offset \<open>i\<close> up to offset \<open>j\<close>.
\<close>

definition read_u8 :: "bytes \<Rightarrow> nat \<Rightarrow> int" where
  "read_u8 buf off = uint (buf ! off)"

definition read_u16 :: "bytes \<Rightarrow> nat \<Rightarrow> int" where
  "read_u16 buf off = 256 * uint (buf ! off) + uint (buf ! (off + 1))"

definition slice :: "bytes \<Rightarrow> nat \<Rightarrow> nat \<Rightarrow> bytes" where
  "slice buf i j = take (j - i) (drop i buf)"

text \<open>
  The number of bytes a layer's own \<^verbatim>\<open>serialize\<close> appends (its serialized size): the
  20 bytes of \<^verbatim>\<open>"!BBHHHBBH4s4s"\<close>, the 8 bytes of \<^verbatim>\<open>"!HHHH"\<close>, the bytes of a payload.
\<close>

fun wire_size :: "layer \<Rightarrow> nat" where
  "wire_size (IPv4 self) = 20"
| "wire_size (UDP self) = 8"
| "wire_size (Payload payload) = length payload"

text \<open>The sum of \<^verbatim>\<open>get_total_length()\<close> over the layers of a sequence.\<close>

definition sum_total_lengths :: "heap \<Rightarrow> ref list \<Rightarrow> int" where
  "sum_total_lengths h layers = sum_list (map (\<lambda>r. get_total_length (h r)) layers)"

text \<open>A length field that does not fit the 16 bits of its wire field.\<close>

fun length_overflow :: "layer \<Rightarrow> bool" where
  "length_overflow (IPv4 self) = (total_length self < 0 \<or> 65535 < total_length self)"
| "length_overflow (UDP self) = (length_udp self < 0 \<or> 65535 < length_udp self)"
| "length_overflow (Payload payload) = False"

text \<open>A port that does not fit the 16 bits of its wire field.\<close>

fun port_overflow :: "layer \<Rightarrow> bool" where
  "port_overflow (UDP self) =
     (src_port self < 0 \<or> 65535 < src_port self \<or> dst_port self < 0 \<or> 65535 < dst_port self)"
| "port_overflow _ = False"

text \<open>
  The backward pass in the words of the specification: the running payload length
  starts as the total length of the last layer, on which \<^verbatim>\<open>set_length\<close> is not called;
  every other layer, walking from the innermost outwards, gets
  \<^verbatim>\<open>set_length(current_payload_length)\<close>, and the running length becomes that layer's new
  total length.
\<close>

fun propagate_lengths :: "ref list \<Rightarrow> int \<Rightarrow> heap \<Rightarrow> heap" where
  "propagate_lengths [] current_payload_length h = h"
| "propagate_lengths (r # rs) current_payload_length h =
     propagate_lengths rs
       (get_total_length (set_length (h r) current_payload_length))
       (h(r := set_length (h r) current_payload_length))"

definition backward_pass_spec :: "heap \<Rightarrow> ref list \<Rightarrow> heap" where
  "backward_pass_spec h layers =
     propagate_lengths (rev (butlast layers)) (get_total_length (h (last layers))) h"

text \<open>
  The forward pass in the words of the specification: the bytes of each layer, in the
  original order, one after the other; the first layer that fails decides the error.
\<close>

fun concat_results :: "(error + bytes) list \<Rightarrow> error + bytes" where
  "concat_results [] = Inr []"
| "concat_results (Inl e # rs) = Inl e"
| "concat_results (Inr b # rs) =
     (case concat_results rs of Inl e \<Rightarrow> Inl e | Inr bs \<Rightarrow> Inr (b @ bs))"

definition forward_pass_spec :: "heap \<Rightarrow> ref list \<Rightarrow> error + bytes" where
  "forward_pass_spec h layers = concat_results (map (\<lambda>r. serialize (h r) []) layers)"

text \<open>
  A dotted-decimal address string: four numbers in decimal, without leading zeros,
  separated by dots.
\<close>

fun dec :: "nat \<Rightarrow> string" where
  "dec n =
     (if n < 10 then [''0123456789'' ! n]
      else dec (n div 10) @ [''0123456789'' ! (n mod 10)])"

declare dec.simps [simp del]

definition dotted_decimal :: "nat \<Rightarrow> nat \<Rightarrow> nat \<Rightarrow> nat \<Rightarrow> string" where
  "dotted_decimal a b c d = dec a @ ''.'' @ dec b @ ''.'' @ dec c @ ''.'' @ dec d"

text \<open>
  The wire format of the two headers: when every integer field fits its width, the 20
  bytes of an IPv4 header and the 8 bytes of a UDP header.
\<close>

definition ipv4_fields_fit :: "IPv4Layer \<Rightarrow> bool" where
  "ipv4_fields_fit self =
     (0 \<le> verihl self \<and> verihl self \<le> 255 \<and> 0 \<le> dscp_ecn self \<and> dscp_ecn self \<le> 255 \<and>
      0 \<le> total_length self \<and> total_length self \<le> 65535 \<and>
      0 \<le> id_ipv4 self \<and> id_ipv4 self \<le> 65535 \<and>
      0 \<le> flags_fragment_offset self \<and> flags_fragment_offset self \<le> 65535 \<and>
      0 \<le> ttl self \<and> ttl self \<le> 255 \<and> 0 \<le> protocol self \<and> protocol self \<le> 255 \<and>
      0 \<le> checksum_ipv4 self \<and> checksum_ipv4 self \<le> 65535)"

definition ipv4_header :: "IPv4Layer \<Rightarrow> bytes" where
  "ipv4_header self =
     [word_of_int (verihl self), word_of_int (dscp_ecn self),
      word_of_int (total_length self div 256), word_of_int (total_length self mod 256),
      word_of_int (id_ipv4 self div 256), word_of_int (id_ipv4 self mod 256),
      word_of_int (flags_fragment_offset self div 256),
      word_of_int (flags_fragment_offset self mod 256),
      word_of_int (ttl self), word_of_int (protocol self),
      word_of_int (checksum_ipv4 self div 256), word_of_int (checksum_ipv4 self mod 256)]
     @ take 4 (src_ip self @ replicate 4 0) @ take 4 (dst_ip self @ replicate 4 0)"

definition udp_fields_fit :: "UDPLayer \<Rightarrow> bool" where
  "udp_fields_fit self =
     (0 \<le> src_port self \<and> src_port self \<le> 65535 \<and> 0 \<le> dst_port self \<and> dst_port self \<le> 65535 \<and>
      0 \<le> length_udp self \<and> length_udp self \<le> 65535 \<and>
      0 \<le> checksum_udp self \<and> checksum_udp self \<le> 65535)"

definition udp_header :: "UDPLayer \<Rightarrow> bytes" where
  "udp_header self =
     [word_of_int (src_port self div 256), word_of_int (src_port self mod 256),
      word_of_int (dst_port self div 256), word_of_int (dst_port self mod 256),
      word_of_int (length_udp self div 256), word_of_int (length_udp self mod 256),
      word_of_int (checksum_udp self div 256), word_of_int (checksum_udp self mod 256)]"

section \<open>Serializing one layer\<close>

lemma IPv4Layer_serialize_eq:
  "IPv4Layer_serialize self buf =
     (if ipv4_fields_fit self then Inr (buf @ ipv4_header self) else Inl struct_error)"
  by (simp add: IPv4Layer_serialize_def ipv4_fields_fit_def ipv4_header_def)

lemma UDPLayer_serialize_eq:
  "UDPLayer_serialize self buf =
     (if udp_fields_fit self then Inr (buf @ udp_header self) else Inl struct_error)"
  by (simp add: UDPLayer_serialize_def udp_fields_fit_def udp_header_def)

lemma length_ipv4_header: "length (ipv4_header self) = 20"
  by (simp add: ipv4_header_def)

lemma length_udp_header: "length (udp_header self) = 8"
  by (simp add: udp_header_def)

lemma serialize_eq:
  "serialize l buf = (case serialize l [] of Inl e \<Rightarrow> Inl e | Inr bs \<Rightarrow> Inr (buf @ bs))"
  by (cases l) (simp_all add: IPv4Layer_serialize_eq UDPLayer_serialize_eq Payload_serialize_def)

lemma serialize_error: "serialize l buf = Inl e \<Longrightarrow> e = struct_error"
  by (cases l)
    (auto simp: IPv4Layer_serialize_eq UDPLayer_serialize_eq Payload_serialize_def
          split: if_splits)

lemma serialize_length:
  "serialize l buf = Inr buf' \<Longrightarrow> length buf' = length buf + wire_size l"
  by (cases l)
    (auto simp: IPv4Layer_serialize_eq UDPLayer_serialize_eq Payload_serialize_def
          length_ipv4_header length_udp_header split: if_splits)

section \<open>The two loops of the composer\<close>

lemma backward_loop_propagate:
  "backward_loop rs False (Some n) h = (None, propagate_lengths rs n h)"
  by (induction rs arbitrary: n h) (simp_all add: Let_def)

lemma backward_loop_spec:
  "layers \<noteq> [] \<Longrightarrow>
     backward_loop (rev layers) True None h = (None, backward_pass_spec h layers)"
  by (cases layers rule: rev_cases) (simp_all add: backward_pass_spec_def backward_loop_propagate)

lemma forward_loop_ok:
  "forward_pass_spec h rs = Inr bs \<Longrightarrow> forward_loop h rs buf = (buf @ bs, None)"
proof (induction rs arbitrary: buf bs)
  case Nil
  then show ?case by (simp add: forward_pass_spec_def)
next
  case (Cons r rs)
  from Cons.prems obtain b bs' where b: "serialize (h r) [] = Inr b"
    and bs': "forward_pass_spec h rs = Inr bs'" and bs: "bs = b @ bs'"
    by (cases "serialize (h r) []") (auto simp: forward_pass_spec_def split: sum.splits)
  have step: "serialize (h r) buf = Inr (buf @ b)"
    by (subst serialize_eq) (simp add: b)
  show ?case
    using Cons.IH [OF bs', of "buf @ b"] by (simp add: step bs)
qed

lemma forward_loop_fail:
  "forward_pass_spec h rs = Inl e \<Longrightarrow> snd (forward_loop h rs buf) = Some e"
proof (induction rs arbitrary: buf)
  case Nil
  then show ?case by (simp add: forward_pass_spec_def)
next
  case (Cons r rs)
  show ?case
  proof (cases "serialize (h r) []")
    case (Inl e')
    then have "serialize (h r) buf = Inl e'"
      by (subst serialize_eq) simp
    with Inl Cons.prems show ?thesis by (simp add: forward_pass_spec_def)
  next
    case (Inr b)
    then have step: "serialize (h r) buf = Inr (buf @ b)"
      by (subst serialize_eq) simp
    from Inr Cons.prems have "forward_pass_spec h rs = Inl e"
      by (auto simp: forward_pass_spec_def split: sum.splits)
    from Cons.IH [OF this, of "buf @ b"] show ?thesis by (simp add: step)
  qed
qed

lemma forward_loop_raise:
  "forward_loop h layers buf0 = (buf, Some e) \<Longrightarrow>
     \<exists>pre r rest bs. layers = pre @ r # rest \<and> forward_pass_spec h pre = Inr bs \<and>
        buf = buf0 @ bs \<and> serialize (h r) [] = Inl e"
proof (induction layers arbitrary: buf0)
  case Nil
  then show ?case by simp
next
  case (Cons x xs)
  show ?case
  proof (cases "serialize (h x) []")
    case (Inl e')
    then have "serialize (h x) buf0 = Inl e'"
      by (subst serialize_eq) simp
    with Cons.prems have "buf = buf0" "e' = e" by simp_all
    with Inl have "x # xs = [] @ x # xs \<and> forward_pass_spec h [] = Inr [] \<and>
        buf = buf0 @ [] \<and> serialize (h x) [] = Inl e"
      by (simp add: forward_pass_spec_def)
    then show ?thesis by blast
  next
    case (Inr b)
    then have step: "serialize (h x) buf0 = Inr (buf0 @ b)"
      by (subst serialize_eq) simp
    with Cons.prems have "forward_loop h xs (buf0 @ b) = (buf, Some e)" by simp
    from Cons.IH [OF this] obtain pre r rest bs where
      xs: "xs = pre @ r # rest" and pre: "forward_pass_spec h pre = Inr bs"
      and buf: "buf = (buf0 @ b) @ bs" and r: "serialize (h r) [] = Inl e"
      by blast
    from pre Inr have "forward_pass_spec h (x # pre) = Inr (b @ bs)"
      by (simp add: forward_pass_spec_def)
    with xs buf r have "x # xs = (x # pre) @ r # rest \<and>
        forward_pass_spec h (x # pre) = Inr (b @ bs) \<and> buf = buf0 @ (b @ bs) \<and>
        serialize (h r) [] = Inl e"
      by simp
    then show ?thesis by blast
  qed
qed

lemma serialize_layers_spec:
  assumes "layers \<noteq> []"
  shows "serialize_layers h layers =
       (backward_pass_spec h layers, forward_pass_spec (backward_pass_spec h layers) layers)"
proof (cases "forward_pass_spec (backward_pass_spec h layers) layers")
  case (Inl e)
  from forward_loop_fail [OF this, of "[]"] Inl show ?thesis
    by (auto simp: serialize_layers_def backward_loop_spec [OF assms] split: prod.splits)
next
  case (Inr bs)
  from forward_loop_ok [OF this, of "[]"] Inr show ?thesis
    by (simp add: serialize_layers_def backward_loop_spec [OF assms])
qed

lemma wire_size_set_length: "wire_size (set_length l n) = wire_size l"
  by (cases l) simp_all

lemma wire_size_propagate:
  "wire_size (propagate_lengths rs n h r) = wire_size (h r)"
  by (induction rs arbitrary: n h) (simp_all add: wire_size_set_length)

lemma length_forward_pass_spec:
  "forward_pass_spec h rs = Inr bs \<Longrightarrow> length bs = sum_list (map (\<lambda>r. wire_size (h r)) rs)"
proof (induction rs arbitrary: bs)
  case Nil
  then show ?case by (simp add: forward_pass_spec_def)
next
  case (Cons r rs)
  from Cons.prems obtain b bs' where b: "serialize (h r) [] = Inr b"
    and bs': "forward_pass_spec h rs = Inr bs'" and bs: "bs = b @ bs'"
    by (cases "serialize (h r) []") (auto simp: forward_pass_spec_def split: sum.splits)
  from serialize_length [OF b] Cons.IH [OF bs'] bs show ?case by simp
qed

lemma forward_pass_spec_error:
  "forward_pass_spec h rs = Inl e \<Longrightarrow> e = struct_error"
proof (induction rs)
  case Nil
  then show ?case by (simp add: forward_pass_spec_def)
next
  case (Cons r rs)
  then show ?case
    by (cases "serialize (h r) []")
       (auto simp: forward_pass_spec_def split: sum.splits dest: serialize_error)
qed

lemma forward_pass_spec_fails:
  "r \<in> set rs \<Longrightarrow> serialize (h r) [] = Inl e \<Longrightarrow> \<exists>e'. forward_pass_spec h rs = Inl e'"
proof (induction rs)
  case Nil
  then show ?case by simp
next
  case (Cons x rs)
  then show ?case
    by (cases "serialize (h x) []") (auto simp: forward_pass_spec_def split: sum.splits)
qed

lemma length_overflow_serialize:
  "length_overflow l \<Longrightarrow> serialize l buf = Inl struct_error"
  by (cases l) (auto simp: IPv4Layer_serialize_eq UDPLayer_serialize_eq ipv4_fields_fit_def udp_fields_fit_def)

lemma port_overflow_serialize:
  "port_overflow l \<Longrightarrow> serialize l buf = Inl struct_error"
  by (cases l) (auto simp: UDPLayer_serialize_eq udp_fields_fit_def)

lemma port_overflow_set_length: "port_overflow (set_length l n) = port_overflow l"
  by (cases l) simp_all

lemma port_overflow_propagate:
  "port_overflow (propagate_lengths rs n h r) = port_overflow (h r)"
  by (induction rs arbitrary: n h) (simp_all add: port_overflow_set_length)

lemma serialize_layers_snd:
  "snd (serialize_layers h layers) = forward_pass_spec (fst (serialize_layers h layers)) layers"
proof (cases "layers = []")
  case True
  then show ?thesis by (simp add: serialize_layers_def forward_pass_spec_def)
next
  case False
  then show ?thesis by (simp add: serialize_layers_spec)
qed

lemma serialize_layers_fst:
  "layers \<noteq> [] \<Longrightarrow> fst (serialize_layers h layers) = backward_pass_spec h layers"
  by (simp add: serialize_layers_spec)

lemma length_overflow_fails:
  assumes "r \<in> set layers" "length_overflow (fst (serialize_layers h layers) r)"
  shows "snd (serialize_layers h layers) = Inl struct_error"
proof -
  let ?h' = "fst (serialize_layers h layers)"
  from assms(2) have "serialize (?h' r) [] = Inl struct_error"
    by (rule length_overflow_serialize)
  from forward_pass_spec_fails [of r layers ?h', OF assms(1) this] obtain e
    where e: "forward_pass_spec ?h' layers = Inl e" by blast
  from forward_pass_spec_error [OF e] e show ?thesis
    by (simp add: serialize_layers_snd)
qed

lemma port_overflow_fails:
  assumes "r \<in> set layers" "port_overflow (h r)"
  shows "snd (serialize_layers h layers) = Inl struct_error"
proof -
  let ?h' = "fst (serialize_layers h layers)"
  from assms(1) have ne: "layers \<noteq> []" by auto
  from assms(2) have "port_overflow (?h' r)"
    by (simp add: serialize_layers_fst [OF ne] backward_pass_spec_def port_overflow_propagate)
  then have "serialize (?h' r) [] = Inl struct_error"
    by (rule port_overflow_serialize)
  from forward_pass_spec_fails [of r layers ?h', OF assms(1) this] obtain e
    where e: "forward_pass_spec ?h' layers = Inl e" by blast
  from forward_pass_spec_error [OF e] e show ?thesis
    by (simp add: serialize_layers_snd)
qed

lemma first_layer_overflow:
  "length_overflow (h r) \<Longrightarrow> forward_loop h (r # rest) [] = ([], Some struct_error)"
  by (simp add: length_overflow_serialize)

lemma propagate_lengths_frame:
  "r \<notin> set rs \<Longrightarrow> propagate_lengths rs n h r = h r"
  by (induction rs arbitrary: n h) simp_all

lemma propagate_lengths_snoc:
  "propagate_lengths (rs @ [x]) n h =
     (let h1 = propagate_lengths rs n h;
          m = (if rs = [] then n else get_total_length (h1 (last rs)))
      in h1(x := set_length (h1 x) m))"
proof (induction rs arbitrary: n h)
  case Nil
  then show ?case by simp
next
  case (Cons r rs)
  show ?case
  proof (cases "rs = []")
    case True
    then show ?thesis by (auto simp: fun_eq_iff)
  next
    case False
    then show ?thesis by (simp add: Cons.IH Let_def fun_upd_def)
  qed
qed

lemma backward_pass_spec_Cons:
  assumes "xs \<noteq> []"
  shows "backward_pass_spec h (x # xs) =
     (let h1 = backward_pass_spec h xs
      in h1(x := set_length (h1 x) (get_total_length (h1 (hd xs)))))"
proof (cases "butlast xs = []")
  case True
  with assms obtain y where "xs = [y]" by (cases xs) (auto split: if_splits)
  then show ?thesis by (simp add: backward_pass_spec_def)
next
  case False
  then have hd: "last (rev (butlast xs)) = hd xs"
    by (cases xs) (auto simp: last_rev)
  from assms False show ?thesis
    by (simp add: backward_pass_spec_def propagate_lengths_snoc Let_def hd)
qed

section \<open>An IPv4 layer over a UDP layer over a payload\<close>

lemma stack_backward:
  assumes "h a = IPv4 ip" "h b = UDP u" "h c = Payload p"
  shows "backward_pass_spec h [a, b, c] =
           h(b := UDP (u\<lparr>length_udp := 8 + int (length p)\<rparr>),
             a := IPv4 (ip\<lparr>total_length := 28 + int (length p)\<rparr>))"
proof -
  from assms have "a \<noteq> b" "b \<noteq> c" "a \<noteq> c" by auto
  with assms show ?thesis by (simp add: backward_pass_spec_def)
qed

lemma stack_forward:
  assumes "h a = IPv4 ip" "h b = UDP u" "h c = Payload p"
  shows "forward_pass_spec h [a, b, c] =
           (if ipv4_fields_fit ip \<and> udp_fields_fit u
            then Inr (ipv4_header ip @ udp_header u @ p) else Inl struct_error)"
  using assms
  by (simp add: forward_pass_spec_def IPv4Layer_serialize_eq UDPLayer_serialize_eq
        Payload_serialize_def)

lemma stack_serialize_layers:
  assumes "h a = IPv4 ip" "h b = UDP u" "h c = Payload p"
  shows "serialize_layers h [a, b, c] =
           (h(b := UDP (u\<lparr>length_udp := 8 + int (length p)\<rparr>),
              a := IPv4 (ip\<lparr>total_length := 28 + int (length p)\<rparr>)),
            if ipv4_fields_fit (ip\<lparr>total_length := 28 + int (length p)\<rparr>) \<and>
               udp_fields_fit (u\<lparr>length_udp := 8 + int (length p)\<rparr>)
            then Inr (ipv4_header (ip\<lparr>total_length := 28 + int (length p)\<rparr>) @
                      udp_header (u\<lparr>length_udp := 8 + int (length p)\<rparr>) @ p)
            else Inl struct_error)"
proof -
  from assms have ne: "a \<noteq> b" "b \<noteq> c" "a \<noteq> c" by auto
  let ?h' = "h(b := UDP (u\<lparr>length_udp := 8 + int (length p)\<rparr>),
              a := IPv4 (ip\<lparr>total_length := 28 + int (length p)\<rparr>))"
  have "?h' a = IPv4 (ip\<lparr>total_length := 28 + int (length p)\<rparr>)"
    "?h' b = UDP (u\<lparr>length_udp := 8 + int (length p)\<rparr>)" "?h' c = Payload p"
    using ne assms by simp_all
  then have "forward_pass_spec ?h' [a, b, c] =
      (if ipv4_fields_fit (ip\<lparr>total_length := 28 + int (length p)\<rparr>) \<and>
          udp_fields_fit (u\<lparr>length_udp := 8 + int (length p)\<rparr>)
       then Inr (ipv4_header (ip\<lparr>total_length := 28 + int (length p)\<rparr>) @
                 udp_header (u\<lparr>length_udp := 8 + int (length p)\<rparr>) @ p)
       else Inl struct_error)"
    by (rule stack_forward)
  then show ?thesis
    by (simp only: serialize_layers_spec [of "[a, b, c]", simplified] stack_backward [OF assms])
qed

lemma build_stack_result:
  "snd (serialize_layers (heap_of [IPv4 ip, UDP u, Payload p]) [0, 1, 2]) =
     (if ipv4_fields_fit (ip\<lparr>total_length := 28 + int (length p)\<rparr>) \<and>
         udp_fields_fit (u\<lparr>length_udp := 8 + int (length p)\<rparr>)
      then Inr (ipv4_header (ip\<lparr>total_length := 28 + int (length p)\<rparr>) @
                udp_header (u\<lparr>length_udp := 8 + int (length p)\<rparr>) @ p)
      else Inl struct_error)"
proof -
  let ?h = "heap_of [IPv4 ip, UDP u, Payload p]"
  have objs: "?h 0 = IPv4 ip" "?h 1 = UDP u" "?h 2 = Payload p"
    by (simp_all add: heap_of_def)
  show ?thesis
    by (simp only: stack_serialize_layers [OF objs] snd_conv)
qed

lemma opts_get_other:
  "k' \<noteq> k \<Longrightarrow> opts_get (opts(k := x)) k' d = opts_get opts k' d"
  by (simp add: opts_get_def)

lemma IPv4Layer_init_total_length:
  "IPv4Layer_init proto src dst (opts(''total_length'' := x)) =
     (case IPv4Layer_init proto src dst opts of
        Inl e \<Rightarrow> Inl e
      | Inr self \<Rightarrow>
          Inr (self\<lparr>total_length := opts_get (opts(''total_length'' := x)) ''total_length'' 0\<rparr>))"
  by (simp add: IPv4Layer_init_def opts_get_other split: sum.splits)

lemma UDPLayer_init_length:
  "UDPLayer_init sport dport (opts(''length'' := y)) =
     (case UDPLayer_init sport dport opts of
        Inl e \<Rightarrow> Inl e
      | Inr self \<Rightarrow> Inr (self\<lparr>length_udp := opts_get (opts(''length'' := y)) ''length'' 0\<rparr>))"
  by (simp add: UDPLayer_init_def opts_get_other)

section \<open>Reading the headers back\<close>

lemma uint_byte: "0 \<le> x \<Longrightarrow> x \<le> 255 \<Longrightarrow> uint (word_of_int x :: byte) = x"
  by (simp add: uint_word_of_int take_bit_int_eq_self)

lemma u16_roundtrip:
  assumes "0 \<le> x" "x \<le> 65535"
  shows "256 * uint (word_of_int (x div 256) :: byte) + uint (word_of_int (x mod 256) :: byte) = x"
proof -
  have hi: "0 \<le> x div 256" "x div 256 \<le> 255" using assms by auto
  have lo: "0 \<le> x mod 256" "x mod 256 \<le> 255" by auto
  show ?thesis
    by (simp add: uint_byte [OF hi] uint_byte [OF lo])
qed

lemma read_total_length:
  "ipv4_fields_fit ip \<Longrightarrow> read_u16 (ipv4_header ip @ rest) 2 = total_length ip"
  by (simp add: read_u16_def ipv4_header_def ipv4_fields_fit_def u16_roundtrip)

lemma read_protocol:
  "ipv4_fields_fit ip \<Longrightarrow> read_u8 (ipv4_header ip @ rest) 9 = protocol ip"
  by (simp add: read_u8_def ipv4_header_def ipv4_fields_fit_def uint_byte)

lemma read_src_ip:
  "length (src_ip ip) = 4 \<Longrightarrow> slice (ipv4_header ip @ rest) 12 16 = src_ip ip"
  by (simp add: slice_def ipv4_header_def)

lemma read_dst_ip:
  "length (src_ip ip) = 4 \<Longrightarrow> length (dst_ip ip) = 4 \<Longrightarrow> slice (ipv4_header ip @ rest) 16 20 = dst_ip ip"
  by (simp add: slice_def ipv4_header_def)

lemma read_udp_fields:
  assumes "udp_fields_fit u" "length hdr = 20"
  shows "read_u16 (hdr @ udp_header u @ rest) 20 = src_port u"
    and "read_u16 (hdr @ udp_header u @ rest) 22 = dst_port u"
    and "read_u16 (hdr @ udp_header u @ rest) 24 = length_udp u"
  using assms
  by (simp_all add: read_u16_def udp_header_def udp_fields_fit_def u16_roundtrip nth_append)

lemma inet_aton_end_length: "inet_aton_end val endp pp = Some packed \<Longrightarrow> length packed = 4"
  by (auto simp: inet_aton_end_def split: if_splits)

section \<open>Parsing a dotted-decimal address\<close>

lemma below_ten:
  "n < 10 \<Longrightarrow> n = 0 \<or> n = 1 \<or> n = 2 \<or> n = 3 \<or> n = 4 \<or> n = 5 \<or> n = 6 \<or> n = 7 \<or> n = 8 \<or> n = (9::nat)"
  by arith

lemma digit_value_digit: "n < 10 \<Longrightarrow> digit_value (''0123456789'' ! n) = Some n"
  by (drule below_ten) (auto simp: digit_value_def)

lemma isdigit_digit: "n < 10 \<Longrightarrow> isdigit (''0123456789'' ! n)"
  by (drule below_ten) (auto simp: isdigit_def)

lemma digit_not_null: "n < 10 \<Longrightarrow> CHR 0x00 \<noteq> ''0123456789'' ! n"
  by (drule below_ten) auto

lemma digit_zero_iff: "n < 10 \<Longrightarrow> (''0123456789'' ! n = CHR ''0'') = (n = 0)"
  by (drule below_ten) auto

lemma strtoul_digits_dec:
  "strtoul_digits 10 (dec n @ rest) acc =
     strtoul_digits 10 rest (acc * 10 ^ length (dec n) + n)"
proof (induction n arbitrary: rest acc rule: dec.induct)
  case (1 n)
  show ?case
  proof (cases "n < 10")
    case True
    then show ?thesis
      by (subst (1 2) dec.simps) (simp add: digit_value_digit)
  next
    case False
    have low: "n mod 10 < 10" by simp
    from False have "strtoul_digits 10 (dec n @ rest) acc =
        strtoul_digits 10 (dec (n div 10) @ (''0123456789'' ! (n mod 10)) # rest) acc"
      by (subst dec.simps) simp
    also have "\<dots> = strtoul_digits 10 ((''0123456789'' ! (n mod 10)) # rest)
        (acc * 10 ^ length (dec (n div 10)) + n div 10)"
      by (rule "1.IH" [OF False])
    also have "\<dots> = strtoul_digits 10 rest
        ((acc * 10 ^ length (dec (n div 10)) + n div 10) * 10 + n mod 10)"
      by (simp add: digit_value_digit [OF low])
    also have "(acc * 10 ^ length (dec (n div 10)) + n div 10) * 10 + n mod 10 =
        acc * 10 ^ length (dec n) + n"
      using False by (subst (2) dec.simps) (simp add: algebra_simps)
    finally show ?thesis .
  qed
qed

lemma dec_Cons:
  "\<exists>k cs. dec n = (''0123456789'' ! k) # cs \<and> k < 10 \<and> (k = 0 \<longrightarrow> n = 0 \<and> cs = [])"
proof (induction n rule: dec.induct)
  case (1 n)
  show ?case
  proof (cases "n < 10")
    case True
    then show ?thesis by (subst dec.simps) auto
  next
    case False
    from "1.IH" [OF False] obtain k cs where
      "dec (n div 10) = (''0123456789'' ! k) # cs" "k < 10" "k = 0 \<longrightarrow> n div 10 = 0 \<and> cs = []"
      by blast
    with False show ?thesis
      by (subst dec.simps) auto
  qed
qed

lemma dec_no_null: "CHR 0x00 \<notin> set (dec n)"
proof (induction n rule: dec.induct)
  case (1 n)
  show ?case
  proof (cases "n < 10")
    case True
    then show ?thesis by (subst dec.simps) (simp add: digit_not_null)
  next
    case False
    have "n mod 10 < 10" by simp
    with False "1.IH" show ?thesis
      by (subst dec.simps) (simp add: digit_not_null)
  qed
qed


lemma strtoul_digits_stop:
  "digit_value c = None \<Longrightarrow> strtoul_digits base (c # cs) acc = (acc, c # cs)"
  by simp

lemma digit_value_dot: "digit_value CHR ''.'' = None"
  by (simp add: digit_value_def)

lemma strtoul_dec_end: "strtoul (dec n) = (n, [])"
proof -
  from dec_Cons [of n] obtain k cs where
    d: "dec n = (''0123456789'' ! k) # cs" and k: "k < 10" and z: "k = 0 \<longrightarrow> n = 0 \<and> cs = []"
    by blast
  show ?thesis
  proof (cases "k = 0")
    case True
    with d z show ?thesis
      by (simp add: strtoul_def hex_prefix_def digit_value_def)
  next
    case False
    from digit_zero_iff [OF k] False have nz: "''0123456789'' ! k \<noteq> CHR ''0''"
      by blast
    then have "strtoul (dec n) = strtoul_digits 10 (dec n @ []) 0"
      by (simp add: strtoul_def hex_prefix_def d split: list.splits)
    also have "\<dots> = (n, [])"
      by (simp only: strtoul_digits_dec) simp
    finally show ?thesis .
  qed
qed

lemma strtoul_dec_dot: "strtoul (dec n @ CHR ''.'' # rest) = (n, CHR ''.'' # rest)"
proof -
  from dec_Cons [of n] obtain k cs where
    d: "dec n = (''0123456789'' ! k) # cs" and k: "k < 10" and z: "k = 0 \<longrightarrow> n = 0 \<and> cs = []"
    by blast
  show ?thesis
  proof (cases "k = 0")
    case True
    with d z show ?thesis
      by (simp add: strtoul_def hex_prefix_def digit_value_def split: list.splits)
  next
    case False
    from digit_zero_iff [OF k] False have nz: "''0123456789'' ! k \<noteq> CHR ''0''"
      by blast
    then have "strtoul (dec n @ CHR ''.'' # rest) = strtoul_digits 10 (dec n @ CHR ''.'' # rest) 0"
      by (simp add: strtoul_def hex_prefix_def d split: list.splits)
    also have "\<dots> = (n, CHR ''.'' # rest)"
      by (simp only: strtoul_digits_dec) (simp add: digit_value_dot)
    finally show ?thesis .
  qed
qed

lemma inet_aton_loop_dec_dot:
  "inet_aton_loop (dec n @ CHR ''.'' # rest) pp =
     (if 2 < length pp \<or> 255 < n then None else inet_aton_loop rest (pp @ [n]))"
proof -
  from dec_Cons [of n] obtain k cs where
    d: "dec n = (''0123456789'' ! k) # cs" and k: "k < 10" by blast
  have "inet_aton_loop (((''0123456789'' ! k) # cs) @ CHR ''.'' # rest) pp =
     (if 2 < length pp \<or> 255 < n then None else inet_aton_loop rest (pp @ [n]))"
    using strtoul_dec_dot [of n rest] isdigit_digit [OF k]
    by (simp add: d)
  then show ?thesis by (simp only: d)
qed

lemma inet_aton_loop_dec_end:
  "inet_aton_loop (dec n) pp = (if 4294967295 < n then None else inet_aton_end n [] pp)"
proof -
  from dec_Cons [of n] obtain k cs where
    d: "dec n = (''0123456789'' ! k) # cs" and k: "k < 10" by blast
  have "inet_aton_loop ((''0123456789'' ! k) # cs) pp =
      (if 4294967295 < n then None else inet_aton_end n [] pp)"
    using strtoul_dec_end [of n] isdigit_digit [OF k]
    by (simp add: d)
  then show ?thesis by (simp only: d)
qed

lemma inet_aton_dotted_decimal:
  "inet_aton (dotted_decimal a b c d) =
     (if a \<le> 255 \<and> b \<le> 255 \<and> c \<le> 255 \<and> d \<le> 255
      then Inr [word_of_nat a, word_of_nat b, word_of_nat c, word_of_nat d]
      else Inl OSError)"
proof -
  have "CHR 0x00 \<notin> set (dotted_decimal a b c d)"
    by (simp add: dotted_decimal_def dec_no_null)
  moreover have "inet_aton_loop (dotted_decimal a b c d) [] =
     (if a \<le> 255 \<and> b \<le> 255 \<and> c \<le> 255 \<and> d \<le> 255
      then Some [word_of_nat a, word_of_nat b, word_of_nat c, word_of_nat d]
      else None)"
    by (simp add: dotted_decimal_def inet_aton_loop_dec_dot inet_aton_loop_dec_end
          inet_aton_end_def)
  ultimately show ?thesis by (simp add: inet_aton_def)
qed



lemma inet_aton_loop_length:
  "inet_aton_loop cp pp = Some packed \<Longrightarrow> length packed = 4"
proof (induction cp pp rule: inet_aton_loop.induct)
  case (1 pp)
  then show ?case by simp
next
  case (2 c cs pp)
  from "2.prems" show ?case
    by (auto simp: inet_aton_end_length split: if_splits prod.splits list.splits
          dest: inet_aton_end_length intro: "2.IH")
qed

lemma inet_aton_length: "inet_aton s = Inr packed \<Longrightarrow> length packed = 4"
  by (auto simp: inet_aton_def split: if_splits option.splits dest: inet_aton_loop_length)

lemma IPv4Layer_init_Inr:
  assumes "IPv4Layer_init proto src dst opts = Inr self"
  shows "inet_aton src = Inr (src_ip self)" "inet_aton dst = Inr (dst_ip self)"
    "protocol self = proto" "length (src_ip self) = 4" "length (dst_ip self) = 4"
proof -
  from assms show a: "inet_aton src = Inr (src_ip self)" and b: "inet_aton dst = Inr (dst_ip self)"
    and "protocol self = proto"
    by (auto simp: IPv4Layer_init_def split: sum.splits)
  from inet_aton_length [OF a] show "length (src_ip self) = 4" .
  from inet_aton_length [OF b] show "length (dst_ip self) = 4" .
qed

lemma UDPLayer_init_Inr:
  "UDPLayer_init sport dport opts = Inr self \<Longrightarrow> src_port self = sport \<and> dst_port self = dport"
  by (auto simp: UDPLayer_init_def)

section \<open>The packet of \<^verbatim>\<open>main.py\<close>\<close>

lemma main_heap_objects:
  "main_heap 0 = IPv4 main_ipv4" "main_heap 1 = UDP main_udp"
  "main_heap 2 = Payload (bytes_of ''Hello World'')"
  by (simp_all add: main_heap_def heap_of_def)

lemma main_serialize_layers:
  "snd (serialize_layers main_heap [0, 1, 2]) = Inr main_bytes"
  using stack_serialize_layers [OF main_heap_objects]
  by (simp add: ipv4_fields_fit_def
        udp_fields_fit_def ipv4_header_def udp_header_def main_ipv4_def main_udp_def
        bytes_of_def main_bytes_def)

lemmas aton_defs = inet_aton_def inet_aton_end_def strtoul_def hex_prefix_def digit_value_def
  isdigit_def isspace_def

lemma replicate_numeral: "replicate (numeral k) x = x # replicate (pred_numeral k) x"
  by (simp add: numeral_eq_Suc)

lemma main_constructors:
  "IPv4Layer_init IPPROTO_UDP ''192.168.0.55'' ''192.168.0.100''
     [''flags'' \<mapsto> IPV4_DONT_FRAGMENT] = Inr main_ipv4"
  "UDPLayer_init 5995 9559 Map.empty = Inr main_udp"
  by (simp_all add: IPv4Layer_init_def UDPLayer_init_def aton_defs replicate_numeral
        opts_get_def IPPROTO_UDP_def IPV4_DONT_FRAGMENT_def main_ipv4_def main_udp_def)

lemma main_pkt_bytes: "main_pkt = Inr main_bytes"
  using main_serialize_layers
  by (simp add: main_pkt_def build_packet_def main_constructors main_heap_def)

section \<open>The two passes\<close>

text \<open>
  C2. For every non-empty layer sequence \<^verbatim>\<open>serialize_layers\<close> does what the
  specification describes. The objects after the call are those of the backward pass
  as specified (\<open>backward_pass_spec\<close>: the running length starts from the last layer's
  total length, \<^verbatim>\<open>set_length\<close> is called on every other layer from the innermost
  outwards with the running length, which then becomes that layer's new total length),
  and the outcome is the forward pass over them in the original order
  (\<open>forward_pass_spec\<close>). The innermost object is left as it was, unless the caller
  passed the same object at an outer place as well. For a sequence of two or more
  layers the backward pass is: compose the sequence without its first layer, then call
  \<^verbatim>\<open>set_length\<close> on the first layer with the new total length of the second.
\<close>

theorem composer_passes:
  assumes "layers \<noteq> []"
  shows "serialize_layers h layers =
           (backward_pass_spec h layers,
            forward_pass_spec (backward_pass_spec h layers) layers)
       \<and> (last layers \<notin> set (butlast layers) \<longrightarrow>
            fst (serialize_layers h layers) (last layers) = h (last layers))
       \<and> (\<forall>x xs. layers = x # xs \<and> xs \<noteq> [] \<longrightarrow>
            fst (serialize_layers h layers) =
              (let h1 = fst (serialize_layers h xs)
               in h1(x := set_length (h1 x) (get_total_length (h1 (hd xs))))))"
proof (intro conjI allI impI)
  show "serialize_layers h layers =
           (backward_pass_spec h layers,
            forward_pass_spec (backward_pass_spec h layers) layers)"
    by (rule serialize_layers_spec [OF assms])
next
  assume "last layers \<notin> set (butlast layers)"
  then show "fst (serialize_layers h layers) (last layers) = h (last layers)"
    by (simp add: serialize_layers_fst [OF assms] backward_pass_spec_def propagate_lengths_frame)
next
  fix x xs
  assume "layers = x # xs \<and> xs \<noteq> []"
  then show "fst (serialize_layers h layers) =
              (let h1 = fst (serialize_layers h xs)
               in h1(x := set_length (h1 x) (get_total_length (h1 (hd xs)))))"
    by (simp add: serialize_layers_fst backward_pass_spec_Cons)
qed

theorem composer_passes_witness:
  "serialize_layers main_heap [0, 1, 2] =
     (backward_pass_spec main_heap [0, 1, 2],
      forward_pass_spec (backward_pass_spec main_heap [0, 1, 2]) [0, 1, 2]) \<and>
   fst (serialize_layers main_heap [0, 1, 2]) 2 = Payload (bytes_of ''Hello World'') \<and>
   fst (serialize_layers main_heap [0, 1, 2]) =
     (fst (serialize_layers main_heap [1, 2]))
       (0 := set_length (fst (serialize_layers main_heap [1, 2]) 0)
               (get_total_length (fst (serialize_layers main_heap [1, 2]) 1))) \<and>
   backward_pass_spec main_heap [0, 1, 2] 1 = UDP (main_udp\<lparr>length_udp := 19\<rparr>) \<and>
   backward_pass_spec main_heap [0, 1, 2] 0 = IPv4 (main_ipv4\<lparr>total_length := 39\<rparr>) \<and>
   forward_pass_spec (backward_pass_spec main_heap [0, 1, 2]) [0, 1, 2] = Inr main_bytes"
proof -
  have ne: "[0, 1, 2] \<noteq> ([] :: ref list)" by simp
  note passes = composer_passes [OF ne, of main_heap]
  have both: "serialize_layers main_heap [0, 1, 2] =
      (backward_pass_spec main_heap [0, 1, 2],
       forward_pass_spec (backward_pass_spec main_heap [0, 1, 2]) [0, 1, 2])"
    by (rule passes [THEN conjunct1])
  have innermost: "fst (serialize_layers main_heap [0, 1, 2]) 2 = Payload (bytes_of ''Hello World'')"
    using passes [THEN conjunct2, THEN conjunct1] by (simp add: main_heap_objects)
  have outermost: "fst (serialize_layers main_heap [0, 1, 2]) =
      (fst (serialize_layers main_heap [1, 2]))
        (0 := set_length (fst (serialize_layers main_heap [1, 2]) 0)
                (get_total_length (fst (serialize_layers main_heap [1, 2]) 1)))"
    using passes [THEN conjunct2, THEN conjunct2, rule_format, of 0 "[1, 2]"]
    by (simp add: Let_def)
  have result: "serialize_layers main_heap [0, 1, 2] =
      (main_heap(1 := UDP (main_udp\<lparr>length_udp := 19\<rparr>),
                 0 := IPv4 (main_ipv4\<lparr>total_length := 39\<rparr>)), Inr main_bytes)"
    using stack_serialize_layers [OF main_heap_objects] main_serialize_layers
    by (simp add: bytes_of_def)
  have pair: "(backward_pass_spec main_heap [0, 1, 2],
       forward_pass_spec (backward_pass_spec main_heap [0, 1, 2]) [0, 1, 2]) =
      (main_heap(1 := UDP (main_udp\<lparr>length_udp := 19\<rparr>),
                 0 := IPv4 (main_ipv4\<lparr>total_length := 39\<rparr>)), Inr main_bytes)"
    by (rule trans [OF both [symmetric] result])
  have objects: "backward_pass_spec main_heap [0, 1, 2] =
      main_heap(1 := UDP (main_udp\<lparr>length_udp := 19\<rparr>),
                0 := IPv4 (main_ipv4\<lparr>total_length := 39\<rparr>))"
    using pair by (elim Pair_inject)
  have bytes: "forward_pass_spec (backward_pass_spec main_heap [0, 1, 2]) [0, 1, 2] = Inr main_bytes"
    using pair by (elim Pair_inject)
  have "backward_pass_spec main_heap [0, 1, 2] 1 = UDP (main_udp\<lparr>length_udp := 19\<rparr>)"
    "backward_pass_spec main_heap [0, 1, 2] 0 = IPv4 (main_ipv4\<lparr>total_length := 39\<rparr>)"
    by (simp_all only: objects) simp_all
  with bytes
  have "backward_pass_spec main_heap [0, 1, 2] 1 = UDP (main_udp\<lparr>length_udp := 19\<rparr>)"
    "backward_pass_spec main_heap [0, 1, 2] 0 = IPv4 (main_ipv4\<lparr>total_length := 39\<rparr>)"
    "forward_pass_spec (backward_pass_spec main_heap [0, 1, 2]) [0, 1, 2] = Inr main_bytes"
    by blast+
  with both innermost outermost show ?thesis by blast
qed

section \<open>The length fields after composition\<close>

text \<open>
  C1. For \<^verbatim>\<open>serialize_layers(ipv4, udp, payload)\<close> with a payload of \<open>L\<close> bytes: after the
  call the UDP layer's \<^verbatim>\<open>length\<close> is \<open>8 + L\<close> and the IPv4 layer's \<^verbatim>\<open>total_length\<close> is
  \<open>28 + L\<close> (the payload object is unchanged); and when the call returns a buffer, the
  buffer has \<open>28 + L\<close> bytes, its IPv4 total-length field (bytes 2-3) reads \<open>28 + L\<close>,
  its UDP length field (bytes 24-25) reads \<open>8 + L\<close>, and the payload bytes follow from
  byte 28. The example is the packet of \<^verbatim>\<open>main.py\<close> (39 bytes, total length 39, UDP length
  19) and the same layers over an empty payload (UDP length 8, total length 28).
\<close>

theorem composed_lengths:
  assumes "h a = IPv4 ip" "h b = UDP u" "h c = Payload p"
  shows "fst (serialize_layers h [a, b, c]) b = UDP (u\<lparr>length_udp := 8 + int (length p)\<rparr>)
       \<and> fst (serialize_layers h [a, b, c]) a = IPv4 (ip\<lparr>total_length := 28 + int (length p)\<rparr>)
       \<and> fst (serialize_layers h [a, b, c]) c = Payload p
       \<and> (\<forall>res. snd (serialize_layers h [a, b, c]) = Inr res \<longrightarrow>
             length res = 28 + length p \<and>
             read_u16 res 2 = 28 + int (length p) \<and>
             read_u16 res 24 = 8 + int (length p) \<and>
             drop 28 res = p)"
proof -
  from assms have ne: "a \<noteq> b" "b \<noteq> c" "a \<noteq> c" by auto
  let ?ip = "ip\<lparr>total_length := 28 + int (length p)\<rparr>"
  let ?u = "u\<lparr>length_udp := 8 + int (length p)\<rparr>"
  have objs: "fst (serialize_layers h [a, b, c]) b = UDP ?u"
    "fst (serialize_layers h [a, b, c]) a = IPv4 ?ip"
    "fst (serialize_layers h [a, b, c]) c = Payload p"
    using ne assms by (simp_all add: stack_serialize_layers [OF assms])
  have "length res = 28 + length p \<and> read_u16 res 2 = 28 + int (length p) \<and>
        read_u16 res 24 = 8 + int (length p) \<and> drop 28 res = p"
    if res: "snd (serialize_layers h [a, b, c]) = Inr res" for res
  proof -
    from res have fit: "ipv4_fields_fit ?ip" "udp_fields_fit ?u"
      and eq: "res = ipv4_header ?ip @ udp_header ?u @ p"
      by (auto simp: stack_serialize_layers [OF assms] split: if_splits)
    have "read_u16 res 2 = total_length ?ip"
      unfolding eq by (rule read_total_length [OF fit(1)])
    moreover have "read_u16 res 24 = length_udp ?u"
      unfolding eq by (rule read_udp_fields(3) [OF fit(2) length_ipv4_header])
    ultimately show ?thesis
      by (simp add: eq length_ipv4_header length_udp_header)
  qed
  with objs show ?thesis by blast
qed

theorem composed_lengths_witness:
  "snd (serialize_layers main_heap [0, 1, 2]) = Inr main_bytes \<and>
   fst (serialize_layers main_heap [0, 1, 2]) 1 = UDP (main_udp\<lparr>length_udp := 19\<rparr>) \<and>
   fst (serialize_layers main_heap [0, 1, 2]) 0 = IPv4 (main_ipv4\<lparr>total_length := 39\<rparr>) \<and>
   length main_bytes = 39 \<and> read_u16 main_bytes 2 = 39 \<and> read_u16 main_bytes 24 = 19 \<and>
   drop 28 main_bytes = bytes_of ''Hello World'' \<and>
   fst (serialize_layers (heap_of [IPv4 main_ipv4, UDP main_udp, Payload []]) [0, 1, 2]) 1
     = UDP (main_udp\<lparr>length_udp := 8\<rparr>) \<and>
   fst (serialize_layers (heap_of [IPv4 main_ipv4, UDP main_udp, Payload []]) [0, 1, 2]) 0
     = IPv4 (main_ipv4\<lparr>total_length := 28\<rparr>)"
proof -
  have empty_objects:
    "heap_of [IPv4 main_ipv4, UDP main_udp, Payload []] 0 = IPv4 main_ipv4"
    "heap_of [IPv4 main_ipv4, UDP main_udp, Payload []] 1 = UDP main_udp"
    "heap_of [IPv4 main_ipv4, UDP main_udp, Payload []] 2 = Payload []"
    by (simp_all add: heap_of_def)
  show ?thesis
    using composed_lengths [OF main_heap_objects] composed_lengths [OF empty_objects]
      main_serialize_layers
    by (simp add: bytes_of_def)
qed

section \<open>The length of the output\<close>

text \<open>
  C3 (as amended). When the composer returns a buffer, the length of the buffer is the
  sum over the layers of each layer's own serialized size (20 bytes for an
  \<^verbatim>\<open>IPv4Layer\<close>, 8 for a \<^verbatim>\<open>UDPLayer\<close>, the number of bytes of a \<^verbatim>\<open>Payload\<close>), the layers
  taken as they are after composition. It is not the sum of the layers'
  \<^verbatim>\<open>get_total_length()\<close>, which counts what an outer layer encapsulates once more for
  every layer around it: the packet of \<^verbatim>\<open>main.py\<close> has 39 bytes and its layers' total
  lengths are 39, 19 and 11.
\<close>

theorem output_length_is_sum_of_sizes:
  "snd (serialize_layers h layers) = Inr res \<Longrightarrow>
     length res = sum_list (map (\<lambda>r. wire_size (fst (serialize_layers h layers) r)) layers)"
  by (rule length_forward_pass_spec) (simp add: serialize_layers_snd [symmetric])

theorem output_length_is_sum_of_sizes_witness:
  "snd (serialize_layers main_heap [0, 1, 2]) = Inr main_bytes \<and>
   length main_bytes = 20 + 8 + 11 \<and>
   sum_list (map (\<lambda>r. wire_size (fst (serialize_layers main_heap [0, 1, 2]) r)) [0, 1, 2])
     = 20 + 8 + 11"
  using output_length_is_sum_of_sizes [OF main_serialize_layers] main_serialize_layers
  by (simp add: main_bytes_def)

theorem output_length_counterexample:
  "snd (serialize_layers main_heap [0, 1, 2]) = Inr main_bytes \<and>
   int (length main_bytes) = 39 \<and>
   sum_total_lengths (fst (serialize_layers main_heap [0, 1, 2])) [0, 1, 2] = 69"
  using stack_serialize_layers [OF main_heap_objects] main_serialize_layers
  by (simp add: sum_total_lengths_def main_bytes_def bytes_of_def main_heap_objects)

section \<open>Reading the packet back\<close>

text \<open>
  C4. When building an IPv4 layer, a UDP layer and a payload and composing them (as
  \<^verbatim>\<open>main.py\<close> does) returns a buffer, reading the buffer at the field offsets of the wire
  format gives back what the constructors were given: byte 9 is the protocol number,
  bytes 12-15 and 16-19 are the source and destination address as \<^verbatim>\<open>inet_aton\<close> packs
  the two address strings (for a dotted-decimal string \<open>a.b.c.d\<close> the four numbers
  themselves, each at most 255), bytes 20-21 and 22-23 are the source and destination
  port, and the payload follows from byte 28 to the end of the buffer.
\<close>

theorem packet_round_trip:
  assumes "build_packet proto src dst ip_opts sport dport udp_opts payload = Inr res"
  shows "length res = 28 + length payload
       \<and> read_u8 res 9 = proto
       \<and> inet_aton src = Inr (slice res 12 16)
       \<and> inet_aton dst = Inr (slice res 16 20)
       \<and> read_u16 res 20 = sport
       \<and> read_u16 res 22 = dport
       \<and> drop 28 res = payload
       \<and> (\<forall>a b c d. src = dotted_decimal a b c d \<longrightarrow>
            slice res 12 16 = [word_of_nat a, word_of_nat b, word_of_nat c, word_of_nat d] \<and>
            a \<le> 255 \<and> b \<le> 255 \<and> c \<le> 255 \<and> d \<le> 255)
       \<and> (\<forall>a b c d. dst = dotted_decimal a b c d \<longrightarrow>
            slice res 16 20 = [word_of_nat a, word_of_nat b, word_of_nat c, word_of_nat d] \<and>
            a \<le> 255 \<and> b \<le> 255 \<and> c \<le> 255 \<and> d \<le> 255)"
proof -
  from assms obtain ipv4 udp where
    ipv4: "IPv4Layer_init proto src dst ip_opts = Inr ipv4" and
    udp: "UDPLayer_init sport dport udp_opts = Inr udp" and
    out: "snd (serialize_layers (heap_of [IPv4 ipv4, UDP udp, Payload payload]) [0, 1, 2]) = Inr res"
    by (auto simp: build_packet_def split: sum.splits)
  let ?ip = "ipv4\<lparr>total_length := 28 + int (length payload)\<rparr>"
  let ?u = "udp\<lparr>length_udp := 8 + int (length payload)\<rparr>"
  from out have fit: "ipv4_fields_fit ?ip" "udp_fields_fit ?u"
    and res: "res = ipv4_header ?ip @ udp_header ?u @ payload"
    by (auto simp only: build_stack_result split: if_splits)
  note init = IPv4Layer_init_Inr [OF ipv4]
  have len: "length res = 28 + length payload"
    by (simp add: res length_ipv4_header length_udp_header)
  have proto: "read_u8 res 9 = proto"
    using read_protocol [OF fit(1), of "udp_header ?u @ payload"] init(3) by (simp add: res)
  have src: "slice res 12 16 = src_ip ipv4"
    using read_src_ip [of ?ip "udp_header ?u @ payload"] init(4) by (simp add: res)
  have dst: "slice res 16 20 = dst_ip ipv4"
    using read_dst_ip [of ?ip "udp_header ?u @ payload"] init(4,5) by (simp add: res)
  have ports: "read_u16 res 20 = sport" "read_u16 res 22 = dport"
    using read_udp_fields(1,2) [OF fit(2) length_ipv4_header, of ?ip payload]
      UDPLayer_init_Inr [OF udp]
    by (simp_all add: res)
  have data: "drop 28 res = payload"
    by (simp add: res length_ipv4_header length_udp_header)
  have src_dotted: "slice res 12 16 = [word_of_nat a, word_of_nat b, word_of_nat c, word_of_nat d] \<and>
      a \<le> 255 \<and> b \<le> 255 \<and> c \<le> 255 \<and> d \<le> 255"
    if "src = dotted_decimal a b c d" for a b c d
    using init(1) that by (auto simp: src inet_aton_dotted_decimal split: if_splits)
  have dst_dotted: "slice res 16 20 = [word_of_nat a, word_of_nat b, word_of_nat c, word_of_nat d] \<and>
      a \<le> 255 \<and> b \<le> 255 \<and> c \<le> 255 \<and> d \<le> 255"
    if "dst = dotted_decimal a b c d" for a b c d
    using init(2) that by (auto simp: dst inet_aton_dotted_decimal split: if_splits)
  from len proto src dst ports data init(1,2) src_dotted dst_dotted show ?thesis
    by simp
qed


theorem packet_round_trip_witness:
  "build_packet IPPROTO_UDP ''192.168.0.55'' ''192.168.0.100''
       [''flags'' \<mapsto> IPV4_DONT_FRAGMENT] 5995 9559 Map.empty (bytes_of ''Hello World'')
     = Inr main_bytes \<and>
   length main_bytes = 39 \<and>
   read_u8 main_bytes 9 = 17 \<and>
   slice main_bytes 12 16 = [192, 168, 0, 55] \<and>
   slice main_bytes 16 20 = [192, 168, 0, 100] \<and>
   read_u16 main_bytes 20 = 5995 \<and>
   read_u16 main_bytes 22 = 9559 \<and>
   drop 28 main_bytes = bytes_of ''Hello World''"
proof -
  have built: "build_packet IPPROTO_UDP ''192.168.0.55'' ''192.168.0.100''
       [''flags'' \<mapsto> IPV4_DONT_FRAGMENT] 5995 9559 Map.empty (bytes_of ''Hello World'')
     = Inr main_bytes"
    using main_pkt_bytes by (simp add: main_pkt_def)
  have src: "''192.168.0.55'' = dotted_decimal 192 168 0 55"
    and dst: "''192.168.0.100'' = dotted_decimal 192 168 0 100"
    by (simp_all add: dotted_decimal_def dec.simps)
  note rt = packet_round_trip [OF built]
  from rt have "slice main_bytes 12 16 = [192, 168, 0, 55]"
    using src by (simp del: One_nat_def)
  moreover from rt have "slice main_bytes 16 20 = [192, 168, 0, 100]"
    using dst by (simp del: One_nat_def)
  moreover from rt have "length main_bytes = 39" "read_u8 main_bytes 9 = 17"
    "read_u16 main_bytes 20 = 5995" "read_u16 main_bytes 22 = 9559"
    "drop 28 main_bytes = bytes_of ''Hello World''"
    by (simp_all add: bytes_of_def IPPROTO_UDP_def)
  ultimately show ?thesis using built by blast
qed

section \<open>Lengths that do not fit 16 bits\<close>

text \<open>
  C5 (as amended). A length that does not fit its 16-bit wire field makes the
  composition fail: \<^verbatim>\<open>struct.pack\<close> raises \<^verbatim>\<open>struct.error\<close> (the error the specification
  calls \<^verbatim>\<open>LengthOverflowError\<close>) instead of cutting or wrapping the value, and no bytes
  are returned. This holds for every layer sequence and every layer of it whose length
  field, as it stands after the backward pass, is out of range. For an IPv4 layer over
  a UDP layer over a payload, and for a UDP layer over a payload, a payload that pushes
  the UDP length or the IPv4 total length above 65535 makes the very first
  \<^verbatim>\<open>serialize\<close> raise: the buffer is still empty when the exception leaves the loop.
  In every sequence the layer that raises has written none of its bytes: when the
  exception leaves the loop the buffer holds the whole bytes of the layers before it
  and nothing else. It is not empty in general: the lengths are checked by
  \<^verbatim>\<open>struct.pack\<close> during the forward pass, layer by layer, so the layers that come
  before the one that raises are in the buffer already, as the two payload bytes of
  \<^verbatim>\<open>serialize_layers(Payload(b"ab"), UDPLayer(1, 2, length=70000))\<close> are.
\<close>

theorem length_overflow_raises:
  "(r \<in> set layers \<and> length_overflow (fst (serialize_layers h layers) r) \<longrightarrow>
      snd (serialize_layers h layers) = Inl struct_error)
   \<and> (h a = IPv4 ip \<and> h b = UDP u \<and> h c = Payload p \<and>
        (65535 < 8 + int (length p) \<or> 65535 < 28 + int (length p)) \<longrightarrow>
      snd (serialize_layers h [a, b, c]) = Inl struct_error \<and>
      forward_loop (fst (serialize_layers h [a, b, c])) [a, b, c] [] = ([], Some struct_error))
   \<and> (h b = UDP u \<and> h c = Payload p \<and> 65535 < 8 + int (length p) \<longrightarrow>
      snd (serialize_layers h [b, c]) = Inl struct_error \<and>
      forward_loop (fst (serialize_layers h [b, c])) [b, c] [] = ([], Some struct_error))
   \<and> (forward_loop (fst (serialize_layers h layers)) layers [] = (buf, Some e) \<longrightarrow>
      (\<exists>pre x rest. layers = pre @ x # rest \<and>
         forward_pass_spec (fst (serialize_layers h layers)) pre = Inr buf \<and>
         serialize (fst (serialize_layers h layers) x) [] = Inl e))"
proof (intro conjI impI)
  assume "forward_loop (fst (serialize_layers h layers)) layers [] = (buf, Some e)"
  from forward_loop_raise [OF this]
  show "\<exists>pre x rest. layers = pre @ x # rest \<and>
         forward_pass_spec (fst (serialize_layers h layers)) pre = Inr buf \<and>
         serialize (fst (serialize_layers h layers) x) [] = Inl e"
    by auto
next
  assume "r \<in> set layers \<and> length_overflow (fst (serialize_layers h layers) r)"
  then show "snd (serialize_layers h layers) = Inl struct_error"
    by (blast intro: length_overflow_fails)
next
  assume asm: "h a = IPv4 ip \<and> h b = UDP u \<and> h c = Payload p \<and>
        (65535 < 8 + int (length p) \<or> 65535 < 28 + int (length p))"
  then have objs: "h a = IPv4 ip" "h b = UDP u" "h c = Payload p"
    and big: "65535 < 28 + int (length p)" by auto
  let ?h' = "fst (serialize_layers h [a, b, c])"
  have a: "?h' a = IPv4 (ip\<lparr>total_length := 28 + int (length p)\<rparr>)"
    by (simp add: stack_serialize_layers [OF objs])
  with big have over: "length_overflow (?h' a)" by simp
  show "snd (serialize_layers h [a, b, c]) = Inl struct_error"
    by (rule length_overflow_fails [of a "[a, b, c]" h, OF _ over]) simp
  show "forward_loop ?h' [a, b, c] [] = ([], Some struct_error)"
    by (rule first_layer_overflow [of ?h' a, OF over])
next
  assume asm: "h b = UDP u \<and> h c = Payload p \<and> 65535 < 8 + int (length p)"
  then have ne: "b \<noteq> c" by auto
  let ?h' = "fst (serialize_layers h [b, c])"
  have "?h' b = UDP (u\<lparr>length_udp := 8 + int (length p)\<rparr>)"
    using asm ne by (simp add: serialize_layers_fst backward_pass_spec_def)
  with asm have over: "length_overflow (?h' b)" by simp
  show "snd (serialize_layers h [b, c]) = Inl struct_error"
    by (rule length_overflow_fails [of b "[b, c]" h, OF _ over]) simp
  show "forward_loop ?h' [b, c] [] = ([], Some struct_error)"
    by (rule first_layer_overflow [of ?h' b, OF over])
qed

theorem length_overflow_raises_witness:
  "fst (serialize_layers big_heap [0, 1, 2]) 0 = IPv4 (main_ipv4\<lparr>total_length := 65536\<rparr>) \<and>
   snd (serialize_layers big_heap [0, 1, 2]) = Inl struct_error \<and>
   forward_loop (fst (serialize_layers big_heap [0, 1, 2])) [0, 1, 2] [] = ([], Some struct_error)"
proof -
  have objs: "big_heap 0 = IPv4 main_ipv4" "big_heap 1 = UDP main_udp"
    "big_heap 2 = Payload (replicate 65508 0)"
    by (simp_all add: big_heap_def heap_of_def)
  have a: "fst (serialize_layers big_heap [0, 1, 2]) 0 = IPv4 (main_ipv4\<lparr>total_length := 65536\<rparr>)"
    using stack_serialize_layers [OF objs] by simp
  show ?thesis
    using length_overflow_raises [of 0 "[0, 1, 2]" big_heap 0 main_ipv4 1 main_udp 2 "replicate 65508 0"]
      a objs
    by simp
qed

theorem length_overflow_counterexample:
  "length_overflow (fst (serialize_layers overflow_heap [0, 1]) 1) \<and>
   snd (serialize_layers overflow_heap [0, 1]) = Inl struct_error \<and>
   forward_loop (fst (serialize_layers overflow_heap [0, 1])) [0, 1] []
     = ([97, 98], Some struct_error)"
proof -
  let ?udp = "\<lparr> src_port = 1, dst_port = 2, length_udp = 70000, checksum_udp = 0 \<rparr>"
  have objs: "overflow_heap 0 = Payload (bytes_of ''ab'')" "overflow_heap 1 = UDP ?udp"
    by (simp_all add: overflow_heap_def heap_of_def)
  have after: "fst (serialize_layers overflow_heap [0, 1]) 0 = Payload (bytes_of ''ab'')"
    "fst (serialize_layers overflow_heap [0, 1]) 1 = UDP ?udp"
    using objs by (simp_all add: serialize_layers_fst backward_pass_spec_def)
  have over: "length_overflow (fst (serialize_layers overflow_heap [0, 1]) 1)"
    by (simp only: after) simp
  have raised: "snd (serialize_layers overflow_heap [0, 1]) = Inl struct_error"
    by (rule length_overflow_fails [of 1 "[0, 1]" overflow_heap, OF _ over]) simp
  have "forward_loop (fst (serialize_layers overflow_heap [0, 1])) [0, 1] []
      = ([97, 98], Some struct_error)"
    using after
    by (simp add: Payload_serialize_def UDPLayer_serialize_eq udp_fields_fit_def bytes_of_def)
  with over raised show ?thesis by blast
qed

section \<open>Ports that do not fit 16 bits\<close>

text \<open>
  C7 (as amended). Constructing a \<^verbatim>\<open>UDPLayer\<close> never fails: the constructor stores the
  two ports as they are given, whatever their values. A port that does not fit 16 bits
  is detected later, by \<^verbatim>\<open>struct.pack\<close>: every \<^verbatim>\<open>serialize\<close> of that layer raises
  \<^verbatim>\<open>struct.error\<close>, and so does every composition of a sequence that holds the layer.
\<close>

theorem UDPLayer_init_never_fails:
  "\<exists>self. UDPLayer_init sport dport opts = Inr self \<and>
      src_port self = sport \<and> dst_port self = dport \<and>
      (sport < 0 \<or> 65535 < sport \<or> dport < 0 \<or> 65535 < dport \<longrightarrow>
         (\<forall>buf. serialize (UDP self) buf = Inl struct_error) \<and>
         (\<forall>h layers r. r \<in> set layers \<and> h r = UDP self \<longrightarrow>
            snd (serialize_layers h layers) = Inl struct_error))"
proof -
  let ?self = "\<lparr> src_port = sport, dst_port = dport, length_udp = opts_get opts ''length'' 0,
           checksum_udp = opts_get opts ''checksum'' 0 \<rparr>"
  have "UDPLayer_init sport dport opts = Inr ?self"
    by (simp add: UDPLayer_init_def)
  moreover have "(\<forall>buf. serialize (UDP ?self) buf = Inl struct_error) \<and>
         (\<forall>h layers r. r \<in> set layers \<and> h r = UDP ?self \<longrightarrow>
            snd (serialize_layers h layers) = Inl struct_error)"
    if bad: "sport < 0 \<or> 65535 < sport \<or> dport < 0 \<or> 65535 < dport"
  proof -
    from bad have po: "port_overflow (UDP ?self)" by simp
    have "serialize (UDP ?self) buf = Inl struct_error" for buf
      by (rule port_overflow_serialize [OF po])
    moreover have "snd (serialize_layers h layers) = Inl struct_error"
      if "r \<in> set layers" "h r = UDP ?self" for h layers r
      using that po by (intro port_overflow_fails [of r layers h]) simp_all
    ultimately show ?thesis by blast
  qed
  ultimately show ?thesis by simp
qed

theorem UDPLayer_init_counterexample:
  "UDPLayer_init 70000 53 Map.empty =
     Inr \<lparr> src_port = 70000, dst_port = 53, length_udp = 0, checksum_udp = 0 \<rparr>"
  by (simp add: UDPLayer_init_def opts_get_def)

theorem UDPLayer_init_never_fails_witness:
  "UDPLayer_init 70000 53 Map.empty =
     Inr \<lparr> src_port = 70000, dst_port = 53, length_udp = 0, checksum_udp = 0 \<rparr> \<and>
   serialize (UDP \<lparr> src_port = 70000, dst_port = 53, length_udp = 0, checksum_udp = 0 \<rparr>) []
     = Inl struct_error \<and>
   snd (serialize_layers
          (heap_of [UDP \<lparr> src_port = 70000, dst_port = 53, length_udp = 0, checksum_udp = 0 \<rparr>,
                    Payload (bytes_of ''x'')]) [0, 1])
     = Inl struct_error"
proof -
  let ?self = "\<lparr> src_port = 70000, dst_port = 53, length_udp = 0, checksum_udp = 0 \<rparr>"
  let ?h = "heap_of [UDP ?self, Payload (bytes_of ''x'')]"
  have init: "UDPLayer_init 70000 53 Map.empty = Inr ?self"
    by (simp add: UDPLayer_init_def opts_get_def)
  have obj: "(0::nat) \<in> set [0, 1] \<and> ?h 0 = UDP ?self"
    by (simp add: heap_of_def)
  from UDPLayer_init_never_fails [of 70000 53 Map.empty] init
  have "(\<forall>buf. serialize (UDP ?self) buf = Inl struct_error) \<and>
        (\<forall>h layers r. r \<in> set layers \<and> h r = UDP ?self \<longrightarrow>
            snd (serialize_layers h layers) = Inl struct_error)"
    by auto
  with init obj show ?thesis by blast
qed

section \<open>The initial values of the length fields\<close>

text \<open>
  C10. The bytes that \<^verbatim>\<open>serialize_layers(ipv4, udp, payload)\<close> returns do not depend on
  the \<^verbatim>\<open>total_length\<close> option given to \<^verbatim>\<open>IPv4Layer\<close> or on the \<^verbatim>\<open>length\<close> option given to
  \<^verbatim>\<open>UDPLayer\<close>: setting, changing or removing the two options (\<open>x\<close> and \<open>y\<close> are the
  new values, \<open>None\<close> for an option that is not passed) leaves the outcome of building
  the packet, bytes or error, as it was.
\<close>

theorem initial_lengths_do_not_matter:
  "build_packet proto src dst (ip_opts(''total_length'' := x)) sport dport
       (udp_opts(''length'' := y)) payload
     = build_packet proto src dst ip_opts sport dport udp_opts payload"
  by (simp add: build_packet_def IPv4Layer_init_total_length UDPLayer_init_length
        build_stack_result del: One_nat_def split: sum.splits)

theorem initial_lengths_do_not_matter_witness:
  "build_packet IPPROTO_UDP ''192.168.0.55'' ''192.168.0.100''
       [''flags'' \<mapsto> IPV4_DONT_FRAGMENT, ''total_length'' \<mapsto> 1234] 5995 9559
       [''length'' \<mapsto> 77] (bytes_of ''Hello World'')
     = Inr main_bytes"
  using initial_lengths_do_not_matter
      [of IPPROTO_UDP "''192.168.0.55''" "''192.168.0.100''" "[''flags'' \<mapsto> IPV4_DONT_FRAGMENT]"
          "Some 1234" 5995 9559 Map.empty "Some 77" "bytes_of ''Hello World''"]
    main_pkt_bytes
  by (simp add: main_pkt_def)


section \<open>Malformed addresses\<close>



section \<open>Serializing a layer twice\<close>

text \<open>
  C9. Serializing the same layer twice in succession, with no call of the composer in
  between, appends the same bytes both times: when the first call turns the buffer
  \<open>buf\<close> into \<open>buf @ bs\<close>, the second call succeeds too and appends the same \<open>bs\<close>.
  \<^verbatim>\<open>serialize\<close> reads the fields of the layer and writes none, so the layer is the same
  object value in both calls.
\<close>

theorem serialize_twice_same_bytes:
  "serialize l buf = Inr buf1 \<Longrightarrow>
     \<exists>bs. buf1 = buf @ bs \<and> serialize l buf1 = Inr (buf1 @ bs)"
proof -
  assume first: "serialize l buf = Inr buf1"
  then obtain bs where bs: "serialize l [] = Inr bs" and buf1: "buf1 = buf @ bs"
    by (subst (asm) serialize_eq) (auto split: sum.splits)
  have "serialize l buf1 = Inr (buf1 @ bs)"
    by (subst serialize_eq) (simp add: bs)
  with buf1 show ?thesis by blast
qed

theorem serialize_twice_same_bytes_witness:
  "serialize (UDP main_udp) [7] = Inr [7, 23, 107, 37, 87, 0, 0, 0, 0] \<and>
   (\<exists>bs. [7, 23, 107, 37, 87, 0, 0, 0, 0] = [7] @ bs \<and>
      serialize (UDP main_udp) [7, 23, 107, 37, 87, 0, 0, 0, 0]
        = Inr ([7, 23, 107, 37, 87, 0, 0, 0, 0] @ bs))"
proof -
  have first: "serialize (UDP main_udp) [7] = Inr [7, 23, 107, 37, 87, 0, 0, 0, 0]"
    by (simp add: UDPLayer_serialize_def main_udp_def)
  from serialize_twice_same_bytes [OF first] first show ?thesis by blast
qed

section \<open>The composer on an empty sequence\<close>

text \<open>
  C6 (as amended). Called with no layer, the composer raises nothing: neither loop runs
  its body, no object changes, and the empty byte string is returned.
\<close>

theorem serialize_layers_empty:
  "serialize_layers h [] = (h, Inr [])"
  by (simp add: serialize_layers_def)

theorem serialize_layers_empty_counterexample:
  "snd (serialize_layers (heap_of []) []) = Inr []"
  by (simp add: serialize_layers_def)

end
